theory Spec2Isabelle
  imports Main "HOL-Library.Word"
begin

unbundle bit_operations_syntax

section \<open>A trace-driven, fully associative cache simulator (sim.c)\<close>

text \<open>
  The development embeds the functions of \<^verbatim>\<open>sim.c\<close> that decide how an address is
  turned into a tag and how a read or a write changes the cache: \<^verbatim>\<open>htoi\<close>,
  \<^verbatim>\<open>getBinary\<close>, \<^verbatim>\<open>formatBinary\<close>, \<^verbatim>\<open>createCache\<close>, \<^verbatim>\<open>readFromCache\<close> and
  \<^verbatim>\<open>writeToCache\<close>.

  Conventions of the embedding.
  \<^item> \<^verbatim>\<open>unsigned int\<close> is \<open>32 word\<close>; arithmetic on it wraps.
  \<^item> The counters and sizes are C \<^verbatim>\<open>int\<close>s. They are modelled as unbounded \<open>int\<close>: signed
    overflow is undefined in C, so the statements below describe runs in which no counter
    reaches \<open>2^31\<close>.
  \<^item> A C string is the list of its characters before the terminating NUL.
  \<^item> A pointer that may be \<^verbatim>\<open>NULL\<close> is an \<open>option\<close>; \<^verbatim>\<open>malloc\<close> is taken to succeed
    (the source aborts through \<^verbatim>\<open>assert\<close> otherwise).
  \<^item> The header \<^verbatim>\<open>sim.h\<close> with the macros \<^verbatim>\<open>TAG\<close>, \<^verbatim>\<open>INDEX\<close>, \<^verbatim>\<open>OFFSET\<close>,
    \<^verbatim>\<open>CACHE_SIZE\<close> and \<^verbatim>\<open>BLOCK_SIZE\<close> is not part of the sources at hand; the three
    field widths are parameters of every function that uses them.
\<close>

subsection \<open>Structs\<close>

text \<open>\<^verbatim>\<open>struct Block_\<close>: validity flag, tag string, dirty flag.\<close>

record Block =
  valid :: int
  tag :: string
  dirty :: int

text \<open>
  \<^verbatim>\<open>struct Cache_\<close>. The field \<^verbatim>\<open>numLines\<close> of the struct is never written and never read
  by any function of the file (every loop recomputes \<^verbatim>\<open>cache_size / block_size\<close>), so it
  is left out. \<open>blocks\<close> is the array of block pointers; \<open>None\<close> is a \<^verbatim>\<open>NULL\<close> entry.
\<close>

record Cache =
  hits :: int
  misses :: int
  reads :: int
  writes :: int
  cache_size :: int
  block_size :: int
  write_policy :: int
  blocks :: "Block option list"

subsection \<open>Utility functions\<close>

text \<open>
  \<^verbatim>\<open>tolower\<close> in the C locale: only the letters \<^verbatim>\<open>'A'\<close> to \<^verbatim>\<open>'Z'\<close> change. Characters are
  compared through their codes, as C compares the promoted \<^verbatim>\<open>int\<close>s.
\<close>

definition tolower :: "char \<Rightarrow> nat" where
  "tolower c =
     (if of_char (CHR ''A'') \<le> (of_char c :: nat) \<and> (of_char c :: nat) \<le> of_char (CHR ''Z'')
      then of_char c + 32 else of_char c)"

text \<open>
  The body of the \<^verbatim>\<open>while\<close> loop of \<^verbatim>\<open>htoi\<close>, one character at a time. The
  multiplication by 16 stands before the tests on the character, so it happens for
  every character, recognised or not.
\<close>

fun htoi_loop :: "string \<Rightarrow> 32 word \<Rightarrow> 32 word" where
  "htoi_loop [] result = result"
| "htoi_loop (c # str) result =
     (let result = result * 16 in
      htoi_loop str
        (if of_char (CHR ''0'') \<le> (of_char c :: nat) \<and> (of_char c :: nat) \<le> of_char (CHR ''9'')
         then result + of_nat (of_char c - of_char (CHR ''0''))
         else if of_char (CHR ''a'') \<le> tolower c \<and> tolower c \<le> of_char (CHR ''f'')
         then result + of_nat (tolower c - of_char (CHR ''a'')) + 10
         else result))"

text \<open>\<^verbatim>\<open>htoi\<close>: an optional leading \<^verbatim>\<open>0x\<close> is stepped over, then the loop runs to the NUL.\<close>

definition htoi :: "string \<Rightarrow> 32 word" where
  "htoi str =
     (case str of
        c0 # c1 # rest \<Rightarrow>
          if c0 = CHR ''0'' \<and> c1 = CHR ''x'' then htoi_loop rest 0 else htoi_loop str 0
      | _ \<Rightarrow> htoi_loop str 0)"

text \<open>
  \<^verbatim>\<open>getBinary\<close>: 32 characters, most significant bit first; position \<open>32 - 1 - i\<close> holds
  \<^verbatim>\<open>'1'\<close> exactly when \<^verbatim>\<open>num == ((1 << i) | num)\<close>. The shifted 1 is converted to
  \<^verbatim>\<open>unsigned int\<close> for the disjunction, so it is bit \<open>i\<close> of a 32-bit word, also for
  \<open>i = 31\<close>.
\<close>

definition getBinary :: "32 word \<Rightarrow> string" where
  "getBinary num =
     map (\<lambda>i. if num = (push_bit i 1 OR num) then CHR ''1'' else CHR ''0'') (rev [0..<32])"

text \<open>
  \<^verbatim>\<open>formatBinary\<close>: the tag bits, a blank, the index bits, a blank, the offset bits. The
  source writes into a buffer of 34 characters, which is what the three loops fill
  when \<open>TAG + INDEX + OFFSET = 32\<close>.
\<close>

definition formatBinary :: "nat \<Rightarrow> nat \<Rightarrow> nat \<Rightarrow> string \<Rightarrow> string" where
  "formatBinary TAG INDEX OFFSET bstring =
     take TAG bstring @ CHR '' '' #
     take INDEX (drop TAG bstring) @ CHR '' '' #
     take OFFSET (drop (TAG + INDEX) bstring)"

text \<open>
  The tag of an address, as \<^verbatim>\<open>readFromCache\<close> and \<^verbatim>\<open>writeToCache\<close> both compute it:
  the first \<open>TAG\<close> characters of the formatted binary string of \<^verbatim>\<open>htoi(address)\<close>.
\<close>

definition address_tag :: "nat \<Rightarrow> nat \<Rightarrow> nat \<Rightarrow> string \<Rightarrow> string" where
  "address_tag TAG INDEX OFFSET address =
     (let dec = htoi address;
          bstring = getBinary dec;
          bformatted = formatBinary TAG INDEX OFFSET bstring
      in take TAG bformatted)"

subsection \<open>Cache functions\<close>

text \<open>
  \<^verbatim>\<open>createCache\<close>: \<^verbatim>\<open>NULL\<close> when the guard rejects the parameters; otherwise a cache with
  zeroed counters and \<^verbatim>\<open>cache_size / block_size\<close> block pointers, all \<^verbatim>\<open>NULL\<close>. Both
  operands of the division are positive behind the guard, where C's truncating
  division and \<open>div\<close> agree.
\<close>

definition createCache :: "int \<Rightarrow> int \<Rightarrow> int \<Rightarrow> Cache option" where
  "createCache cache_size' block_size' write_policy' =
     (if cache_size' \<le> 0 \<or> block_size' \<le> 0 \<or> (write_policy' \<noteq> 0 \<and> write_policy' \<noteq> 1)
      then None
      else Some \<lparr>hits = 0, misses = 0, reads = 0, writes = 0,
                 cache_size = cache_size', block_size = block_size',
                 write_policy = write_policy',
                 blocks = replicate (nat (cache_size' div block_size')) None\<rparr>)"

text \<open>
  The first loop of \<^verbatim>\<open>readFromCache\<close> and \<^verbatim>\<open>writeToCache\<close>: the least index \<open>i\<close> from
  the start index below \<open>n\<close> whose block is not \<^verbatim>\<open>NULL\<close>, is valid and carries the tag
  (\<^verbatim>\<open>strcmp\<close> returns 0 exactly on equal strings).
\<close>

function find_block :: "Block option list \<Rightarrow> string \<Rightarrow> nat \<Rightarrow> nat \<Rightarrow> nat option" where
  "find_block bs tg n i =
     (if i < n then
        (case bs ! i of
           Some block \<Rightarrow>
             if valid block = 1 \<and> tag block = tg then Some i
             else find_block bs tg n (Suc i)
         | None \<Rightarrow> find_block bs tg n (Suc i))
      else None)"
  by pat_completeness auto
termination
  by (relation "measure (\<lambda>(bs, tg, n, i). n - i)") auto

declare find_block.simps [simp del]

text \<open>The second loop: the least index below \<open>n\<close> whose block pointer is \<^verbatim>\<open>NULL\<close>.\<close>

function find_empty :: "Block option list \<Rightarrow> nat \<Rightarrow> nat \<Rightarrow> nat option" where
  "find_empty bs n i =
     (if i < n then
        (case bs ! i of
           None \<Rightarrow> Some i
         | Some block \<Rightarrow> find_empty bs n (Suc i))
      else None)"
  by pat_completeness auto
termination
  by (relation "measure (\<lambda>(bs, n, i). n - i)") auto

declare find_empty.simps [simp del]

text \<open>
  \<^verbatim>\<open>readFromCache\<close>. The result is the returned \<^verbatim>\<open>int\<close> and the cache pointer with the
  cache it now points to. A \<^verbatim>\<open>NULL\<close> cache or address returns 0 and touches nothing.
  On a hit \<^verbatim>\<open>hits\<close> goes up; otherwise a new block is placed in the first empty entry and
  \<^verbatim>\<open>misses\<close> and \<^verbatim>\<open>reads\<close> go up; when there is no empty entry the new block is freed
  again and 0 is returned.
\<close>

definition readFromCache ::
  "nat \<Rightarrow> nat \<Rightarrow> nat \<Rightarrow> Cache option \<Rightarrow> string option \<Rightarrow> int \<times> Cache option" where
  "readFromCache TAG INDEX OFFSET cache address =
     (case (cache, address) of
        (Some c, Some a) \<Rightarrow>
          (let tg = address_tag TAG INDEX OFFSET a;
               n = nat (cache_size c div block_size c)
           in case find_block (blocks c) tg n 0 of
                Some i \<Rightarrow> (1, Some (c\<lparr>hits := hits c + 1\<rparr>))
              | None \<Rightarrow>
                  (let newBlock = \<lparr>valid = 1, tag = tg, dirty = 0\<rparr>
                   in case find_empty (blocks c) n 0 of
                        Some i \<Rightarrow>
                          (1, Some (c\<lparr>blocks := (blocks c)[i := Some newBlock],
                                      misses := misses c + 1,
                                      reads := reads c + 1\<rparr>))
                      | None \<Rightarrow> (0, Some c)))
      | _ \<Rightarrow> (0, cache))"

text \<open>
  \<^verbatim>\<open>writeToCache\<close>. As \<^verbatim>\<open>readFromCache\<close>, except that a hit under write policy 0
  increments \<^verbatim>\<open>writes\<close> and marks the block found dirty, and that a block installed on a
  miss is dirty.
\<close>

definition writeToCache ::
  "nat \<Rightarrow> nat \<Rightarrow> nat \<Rightarrow> Cache option \<Rightarrow> string option \<Rightarrow> int \<times> Cache option" where
  "writeToCache TAG INDEX OFFSET cache address =
     (case (cache, address) of
        (Some c, Some a) \<Rightarrow>
          (let tg = address_tag TAG INDEX OFFSET a;
               n = nat (cache_size c div block_size c)
           in case find_block (blocks c) tg n 0 of
                Some i \<Rightarrow>
                  (1, Some (c\<lparr>writes := (if write_policy c = 0 then writes c + 1 else writes c),
                              blocks := (blocks c)[i := map_option (\<lambda>block. block\<lparr>dirty := 1\<rparr>)
                                                           (blocks c ! i)],
                              hits := hits c + 1\<rparr>))
              | None \<Rightarrow>
                  (let newBlock = \<lparr>valid = 1, tag = tg, dirty = 1\<rparr>
                   in case find_empty (blocks c) n 0 of
                        Some i \<Rightarrow>
                          (1, Some (c\<lparr>blocks := (blocks c)[i := Some newBlock],
                                      misses := misses c + 1,
                                      reads := reads c + 1\<rparr>))
                      | None \<Rightarrow> (0, Some c)))
      | _ \<Rightarrow> (0, cache))"

subsection \<open>Runs\<close>

text \<open>
  An access record is what the loop of \<^verbatim>\<open>main\<close> hands on for a trace line of mode
  \<^verbatim>\<open>R\<close> or \<^verbatim>\<open>W\<close>: the mode and the address text. \<open>step\<close> is the dispatch of \<^verbatim>\<open>main\<close>
  (the return value is dropped there), \<open>run\<close> the loop over the records, on the
  cache pointer \<^verbatim>\<open>main\<close> holds.
\<close>

datatype access = Read string | Write string

fun address_of :: "access \<Rightarrow> string" where
  "address_of (Read a) = a"
| "address_of (Write a) = a"

fun step :: "nat \<Rightarrow> nat \<Rightarrow> nat \<Rightarrow> Cache option \<Rightarrow> access \<Rightarrow> Cache option" where
  "step TAG INDEX OFFSET cache (Read a) = snd (readFromCache TAG INDEX OFFSET cache (Some a))"
| "step TAG INDEX OFFSET cache (Write a) = snd (writeToCache TAG INDEX OFFSET cache (Some a))"

fun run :: "nat \<Rightarrow> nat \<Rightarrow> nat \<Rightarrow> Cache option \<Rightarrow> access list \<Rightarrow> Cache option" where
  "run TAG INDEX OFFSET cache [] = cache"
| "run TAG INDEX OFFSET cache (a # trace) =
     run TAG INDEX OFFSET (step TAG INDEX OFFSET cache a) trace"

subsection \<open>Outcomes and invariants, in the words of the specification\<close>

text \<open>
  The three outcomes of an access. They are read off the cache before the access: a hit
  when some valid block holds the tag, an installing miss when no block does and some
  slot is empty, a dropped miss when no block does and no slot is empty.
\<close>

datatype outcome = Hit | MissInstalled | MissDropped

definition resident :: "Cache \<Rightarrow> string \<Rightarrow> bool" where
  "resident c tg =
     list_ex (\<lambda>slot. case slot of None \<Rightarrow> False
                     | Some block \<Rightarrow> valid block = 1 \<and> tag block = tg) (blocks c)"

definition has_empty_slot :: "Cache \<Rightarrow> bool" where
  "has_empty_slot c = list_ex (\<lambda>slot. slot = None) (blocks c)"

definition outcome_of :: "Cache \<Rightarrow> string \<Rightarrow> outcome" where
  "outcome_of c tg =
     (if resident c tg then Hit
      else if has_empty_slot c then MissInstalled
      else MissDropped)"

text \<open>The outcomes of the accesses of a run, in order (none on a \<^verbatim>\<open>NULL\<close> cache).\<close>

fun outcomes :: "nat \<Rightarrow> nat \<Rightarrow> nat \<Rightarrow> Cache option \<Rightarrow> access list \<Rightarrow> outcome list" where
  "outcomes TAG INDEX OFFSET cache [] = []"
| "outcomes TAG INDEX OFFSET cache (a # trace) =
     (case cache of
        None \<Rightarrow> []
      | Some c \<Rightarrow> [outcome_of c (address_tag TAG INDEX OFFSET (address_of a))]) @
     outcomes TAG INDEX OFFSET (step TAG INDEX OFFSET cache a) trace"

text \<open>
  A cache as \<^verbatim>\<open>createCache\<close> lays it out: positive sizes, and as many block pointers as
  the loops of the access functions visit.
\<close>

definition wf_cache :: "Cache \<Rightarrow> bool" where
  "wf_cache c \<longleftrightarrow>
     0 < cache_size c \<and> 0 < block_size c \<and>
     length (blocks c) = nat (cache_size c div block_size c)"

text \<open>No two valid slots hold equal tags.\<close>

definition unique_tags :: "Cache \<Rightarrow> bool" where
  "unique_tags c \<longleftrightarrow>
     (\<forall>i \<in> {..<length (blocks c)}. \<forall>j \<in> {..<length (blocks c)}.
        i \<noteq> j \<longrightarrow>
        (case (blocks c ! i, blocks c ! j) of
           (Some b1, Some b2) \<Rightarrow> \<not> (valid b1 = 1 \<and> valid b2 = 1 \<and> tag b1 = tag b2)
         | _ \<Rightarrow> True))"

subsection \<open>The stated contract of construction and of hexadecimal parsing\<close>

text \<open>
  The constraints on the construction parameters as the specification lists them:
  both sizes positive, the block size a divisor of the cache size, and one of the two
  write policies (0 is write through, 1 is write back).
\<close>

definition construction_constraints :: "int \<Rightarrow> int \<Rightarrow> int \<Rightarrow> bool" where
  "construction_constraints cache_size' block_size' write_policy' \<longleftrightarrow>
     0 < cache_size' \<and> 0 < block_size' \<and> block_size' dvd cache_size' \<and>
     (write_policy' = 0 \<or> write_policy' = 1)"

text \<open>
  Hexadecimal parsing as the specification words it: after an optional leading
  \<^verbatim>\<open>0x\<close>, every character that is not a hexadecimal digit is deleted, and the
  remaining digits are read as a base 16 numeral (in 32 bits).
\<close>

definition is_hex_digit :: "char \<Rightarrow> bool" where
  "is_hex_digit c \<longleftrightarrow>
     (of_char (CHR ''0'') \<le> (of_char c :: nat) \<and> (of_char c :: nat) \<le> of_char (CHR ''9'')) \<or>
     (of_char (CHR ''a'') \<le> tolower c \<and> tolower c \<le> of_char (CHR ''f''))"

definition hex_digit_value :: "char \<Rightarrow> 32 word" where
  "hex_digit_value c =
     (if of_char (CHR ''0'') \<le> (of_char c :: nat) \<and> (of_char c :: nat) \<le> of_char (CHR ''9'')
      then of_nat (of_char c - of_char (CHR ''0''))
      else of_nat (tolower c - of_char (CHR ''a'')) + 10)"

definition hex_numeral :: "string \<Rightarrow> 32 word" where
  "hex_numeral digits = foldl (\<lambda>result c. result * 16 + hex_digit_value c) 0 digits"

definition strip_0x :: "string \<Rightarrow> string" where
  "strip_0x str =
     (case str of
        c0 # c1 # rest \<Rightarrow> if c0 = CHR ''0'' \<and> c1 = CHR ''x'' then rest else str
      | _ \<Rightarrow> str)"

definition htoi_spec :: "string \<Rightarrow> 32 word" where
  "htoi_spec str = hex_numeral (filter is_hex_digit (strip_0x str))"

section \<open>The two scanning loops\<close>

text \<open>
  What the loops return, in terms of the slots they visit: \<open>None\<close> exactly when no slot
  from the start index on qualifies, and otherwise an index of a qualifying slot.
\<close>

lemma all_from_split:
  assumes "i < n"
  shows "(\<forall>j. i \<le> j \<and> j < n \<longrightarrow> P j) \<longleftrightarrow> P i \<and> (\<forall>j. Suc i \<le> j \<and> j < n \<longrightarrow> P j)"
proof
  assume all: "\<forall>j. i \<le> j \<and> j < n \<longrightarrow> P j"
  with assms show "P i \<and> (\<forall>j. Suc i \<le> j \<and> j < n \<longrightarrow> P j)" by auto
next
  assume rhs: "P i \<and> (\<forall>j. Suc i \<le> j \<and> j < n \<longrightarrow> P j)"
  show "\<forall>j. i \<le> j \<and> j < n \<longrightarrow> P j"
  proof (intro allI impI)
    fix j assume j: "i \<le> j \<and> j < n"
    show "P j"
    proof (cases "j = i")
      case True
      with rhs show ?thesis by simp
    next
      case False
      with j have "Suc i \<le> j" by simp
      with rhs j show ?thesis by simp
    qed
  qed
qed

lemma find_block_None:
  "find_block bs tg n i = None \<longleftrightarrow>
     (\<forall>j. i \<le> j \<and> j < n \<longrightarrow> (\<forall>b. bs ! j = Some b \<longrightarrow> \<not> (valid b = 1 \<and> tag b = tg)))"
proof (induction bs tg n i rule: find_block.induct)
  case (1 bs tg n i)
  show ?case
  proof (cases "i < n")
    case False
    then show ?thesis by (subst find_block.simps) auto
  next
    case True
    note split = all_from_split [OF True]
    show ?thesis
    proof (cases "bs ! i")
      case None
      with True "1.IH"(1) show ?thesis
        by (subst find_block.simps, subst split) simp
    next
      case (Some b)
      with True "1.IH"(2) show ?thesis
        by (subst find_block.simps, subst split) auto
    qed
  qed
qed

lemma find_block_Some:
  "find_block bs tg n i = Some k \<Longrightarrow>
     i \<le> k \<and> k < n \<and> (\<exists>b. bs ! k = Some b \<and> valid b = 1 \<and> tag b = tg)"
proof (induction bs tg n i rule: find_block.induct)
  case (1 bs tg n i)
  from "1.prems" have lt: "i < n"
    by (subst (asm) find_block.simps) (simp split: if_splits)
  show ?case
  proof (cases "bs ! i")
    case None
    with lt "1.prems" have "find_block bs tg n (Suc i) = Some k"
      by (subst (asm) find_block.simps) simp
    with "1.IH"(1) [OF lt None] show ?thesis by auto
  next
    case (Some b)
    show ?thesis
    proof (cases "valid b = 1 \<and> tag b = tg")
      case True
      with lt Some "1.prems" have "k = i"
        by (subst (asm) find_block.simps) simp
      with lt Some True show ?thesis by simp
    next
      case False
      with lt Some "1.prems" have "find_block bs tg n (Suc i) = Some k"
        by (subst (asm) find_block.simps) auto
      with "1.IH"(2) [OF lt Some False] show ?thesis by auto
    qed
  qed
qed

lemma find_empty_None:
  "find_empty bs n i = None \<longleftrightarrow> (\<forall>j. i \<le> j \<and> j < n \<longrightarrow> bs ! j \<noteq> None)"
proof (induction bs n i rule: find_empty.induct)
  case (1 bs n i)
  show ?case
  proof (cases "i < n")
    case False
    then show ?thesis by (subst find_empty.simps) auto
  next
    case True
    note split = all_from_split [OF True]
    show ?thesis
    proof (cases "bs ! i")
      case None
      with True show ?thesis
        by (subst find_empty.simps, subst split) simp
    next
      case (Some b)
      with True "1.IH" show ?thesis
        by (subst find_empty.simps, subst split) auto
    qed
  qed
qed

lemma find_empty_Some:
  "find_empty bs n i = Some k \<Longrightarrow> i \<le> k \<and> k < n \<and> bs ! k = None"
proof (induction bs n i rule: find_empty.induct)
  case (1 bs n i)
  from "1.prems" have lt: "i < n"
    by (subst (asm) find_empty.simps) (simp split: if_splits)
  show ?case
  proof (cases "bs ! i")
    case None
    with lt "1.prems" have "k = i"
      by (subst (asm) find_empty.simps) simp
    with lt None show ?thesis by simp
  next
    case (Some b)
    with lt "1.prems" have "find_empty bs n (Suc i) = Some k"
      by (subst (asm) find_empty.simps) simp
    with "1.IH" [OF lt Some] show ?thesis by auto
  qed
qed

lemma resident_iff:
  "resident c tg \<longleftrightarrow>
     (\<exists>j < length (blocks c). \<exists>b. blocks c ! j = Some b \<and> valid b = 1 \<and> tag b = tg)"
  unfolding resident_def list_ex_length
  by (auto split: option.splits)

lemma has_empty_slot_iff:
  "has_empty_slot c \<longleftrightarrow> (\<exists>j < length (blocks c). blocks c ! j = None)"
  unfolding has_empty_slot_def list_ex_length by simp

lemma resident_find_block:
  "resident c tg \<longleftrightarrow> find_block (blocks c) tg (length (blocks c)) 0 \<noteq> None"
  unfolding resident_iff find_block_None by auto

lemma has_empty_slot_find_empty:
  "has_empty_slot c \<longleftrightarrow> find_empty (blocks c) (length (blocks c)) 0 \<noteq> None"
  unfolding has_empty_slot_iff find_empty_None by auto

section \<open>Construction\<close>

text \<open>What a successful \<^verbatim>\<open>createCache\<close> returns.\<close>

lemma createCache_Some:
  "createCache cs bs wp = Some c \<Longrightarrow>
     wf_cache c \<and> hits c = 0 \<and> misses c = 0 \<and> reads c = 0 \<and> writes c = 0 \<and>
     write_policy c = wp \<and> cache_size c = cs \<and> block_size c = bs \<and>
     blocks c = replicate (nat (cs div bs)) None"
  by (auto simp: createCache_def wf_cache_def split: if_splits)

section \<open>One access, outcome by outcome\<close>

text \<open>
  On a well-formed cache the outcome read off the slots tells which branch of
  \<^verbatim>\<open>readFromCache\<close> and \<^verbatim>\<open>writeToCache\<close> runs, and so which cache results.
\<close>

lemma read_hit:
  assumes "wf_cache c" and "outcome_of c (address_tag TAG INDEX OFFSET a) = Hit"
  shows "readFromCache TAG INDEX OFFSET (Some c) (Some a) = (1, Some (c\<lparr>hits := hits c + 1\<rparr>))"
proof -
  let ?tg = "address_tag TAG INDEX OFFSET a"
  from assms(2) have "resident c ?tg"
    by (simp add: outcome_of_def split: if_splits)
  then obtain k where "find_block (blocks c) ?tg (length (blocks c)) 0 = Some k"
    by (auto simp: resident_find_block)
  with assms(1) show ?thesis
    by (simp add: readFromCache_def wf_cache_def)
qed

lemma read_installed:
  assumes "wf_cache c" and "outcome_of c (address_tag TAG INDEX OFFSET a) = MissInstalled"
  shows "\<exists>k < length (blocks c). blocks c ! k = None \<and>
           readFromCache TAG INDEX OFFSET (Some c) (Some a) =
             (1, Some (c\<lparr>blocks := (blocks c)[k := Some \<lparr>valid = 1,
                                                     tag = address_tag TAG INDEX OFFSET a,
                                                     dirty = 0\<rparr>],
                         misses := misses c + 1, reads := reads c + 1\<rparr>))"
proof -
  let ?tg = "address_tag TAG INDEX OFFSET a"
  from assms(2) have nores: "find_block (blocks c) ?tg (length (blocks c)) 0 = None"
    and "has_empty_slot c"
    by (simp_all add: outcome_of_def resident_find_block split: if_splits)
  then obtain k where k: "find_empty (blocks c) (length (blocks c)) 0 = Some k"
    by (auto simp: has_empty_slot_find_empty)
  from find_empty_Some [OF k] have "k < length (blocks c)" "blocks c ! k = None" by simp_all
  moreover from assms(1) nores k
  have "readFromCache TAG INDEX OFFSET (Some c) (Some a) =
             (1, Some (c\<lparr>blocks := (blocks c)[k := Some \<lparr>valid = 1, tag = ?tg, dirty = 0\<rparr>],
                         misses := misses c + 1, reads := reads c + 1\<rparr>))"
    by (simp add: readFromCache_def wf_cache_def)
  ultimately show ?thesis by blast
qed

lemma read_dropped:
  assumes "wf_cache c" and "outcome_of c (address_tag TAG INDEX OFFSET a) = MissDropped"
  shows "readFromCache TAG INDEX OFFSET (Some c) (Some a) = (0, Some c)"
proof -
  let ?tg = "address_tag TAG INDEX OFFSET a"
  from assms(2) have "find_block (blocks c) ?tg (length (blocks c)) 0 = None"
    and "find_empty (blocks c) (length (blocks c)) 0 = None"
    by (simp_all add: outcome_of_def resident_find_block has_empty_slot_find_empty
        split: if_splits)
  with assms(1) show ?thesis
    by (simp add: readFromCache_def wf_cache_def)
qed

lemma write_hit:
  assumes "wf_cache c" and "outcome_of c (address_tag TAG INDEX OFFSET a) = Hit"
  shows "\<exists>k < length (blocks c). \<exists>b. blocks c ! k = Some b \<and> valid b = 1 \<and>
           tag b = address_tag TAG INDEX OFFSET a \<and>
           writeToCache TAG INDEX OFFSET (Some c) (Some a) =
             (1, Some (c\<lparr>writes := (if write_policy c = 0 then writes c + 1 else writes c),
                         blocks := (blocks c)[k := Some (b\<lparr>dirty := 1\<rparr>)],
                         hits := hits c + 1\<rparr>))"
proof -
  let ?tg = "address_tag TAG INDEX OFFSET a"
  from assms(2) have "resident c ?tg"
    by (simp add: outcome_of_def split: if_splits)
  then obtain k where k: "find_block (blocks c) ?tg (length (blocks c)) 0 = Some k"
    by (auto simp: resident_find_block)
  from find_block_Some [OF k] obtain b where
    b: "k < length (blocks c)" "blocks c ! k = Some b" "valid b = 1" "tag b = ?tg"
    by auto
  from assms(1) k b
  have "writeToCache TAG INDEX OFFSET (Some c) (Some a) =
             (1, Some (c\<lparr>writes := (if write_policy c = 0 then writes c + 1 else writes c),
                         blocks := (blocks c)[k := Some (b\<lparr>dirty := 1\<rparr>)],
                         hits := hits c + 1\<rparr>))"
    by (simp add: writeToCache_def wf_cache_def)
  with b show ?thesis by blast
qed

lemma write_installed:
  assumes "wf_cache c" and "outcome_of c (address_tag TAG INDEX OFFSET a) = MissInstalled"
  shows "\<exists>k < length (blocks c). blocks c ! k = None \<and>
           writeToCache TAG INDEX OFFSET (Some c) (Some a) =
             (1, Some (c\<lparr>blocks := (blocks c)[k := Some \<lparr>valid = 1,
                                                     tag = address_tag TAG INDEX OFFSET a,
                                                     dirty = 1\<rparr>],
                         misses := misses c + 1, reads := reads c + 1\<rparr>))"
proof -
  let ?tg = "address_tag TAG INDEX OFFSET a"
  from assms(2) have nores: "find_block (blocks c) ?tg (length (blocks c)) 0 = None"
    and "has_empty_slot c"
    by (simp_all add: outcome_of_def resident_find_block split: if_splits)
  then obtain k where k: "find_empty (blocks c) (length (blocks c)) 0 = Some k"
    by (auto simp: has_empty_slot_find_empty)
  from find_empty_Some [OF k] have "k < length (blocks c)" "blocks c ! k = None" by simp_all
  moreover from assms(1) nores k
  have "writeToCache TAG INDEX OFFSET (Some c) (Some a) =
             (1, Some (c\<lparr>blocks := (blocks c)[k := Some \<lparr>valid = 1, tag = ?tg, dirty = 1\<rparr>],
                         misses := misses c + 1, reads := reads c + 1\<rparr>))"
    by (simp add: writeToCache_def wf_cache_def)
  ultimately show ?thesis by blast
qed

lemma write_dropped:
  assumes "wf_cache c" and "outcome_of c (address_tag TAG INDEX OFFSET a) = MissDropped"
  shows "writeToCache TAG INDEX OFFSET (Some c) (Some a) = (0, Some c)"
proof -
  let ?tg = "address_tag TAG INDEX OFFSET a"
  from assms(2) have "find_block (blocks c) ?tg (length (blocks c)) 0 = None"
    and "find_empty (blocks c) (length (blocks c)) 0 = None"
    by (simp_all add: outcome_of_def resident_find_block has_empty_slot_find_empty
        split: if_splits)
  with assms(1) show ?thesis
    by (simp add: writeToCache_def wf_cache_def)
qed

section \<open>Tags stay unique\<close>

text \<open>
  \<open>unique_tags\<close> spelled out over slot indices, and its preservation by the two ways an
  access changes the slots: installing a tag that is not resident into an empty slot,
  and marking a resident block dirty.
\<close>

lemma unique_tags_iff:
  "unique_tags c \<longleftrightarrow>
     (\<forall>i j b1 b2. i < length (blocks c) \<longrightarrow> j < length (blocks c) \<longrightarrow> i \<noteq> j \<longrightarrow>
        blocks c ! i = Some b1 \<longrightarrow> blocks c ! j = Some b2 \<longrightarrow>
        valid b1 = 1 \<longrightarrow> valid b2 = 1 \<longrightarrow> tag b1 \<noteq> tag b2)"
  unfolding unique_tags_def
  by (auto split: option.splits)

lemma nth_install:
  assumes "bs ! k = None" and "k < length bs"
    and "bs[k := Some \<lparr>valid = 1, tag = tg, dirty = d\<rparr>] ! i = Some x"
  shows "(i = k \<and> tag x = tg) \<or> (i \<noteq> k \<and> bs ! i = Some x)"
  using assms by (cases "i = k") auto

lemma nth_dirty:
  assumes "bs ! k = Some b" and "i < length bs"
    and "bs[k := Some (b\<lparr>dirty := 1\<rparr>)] ! i = Some x"
  shows "\<exists>y. bs ! i = Some y \<and> valid y = valid x \<and> tag y = tag x"
  using assms by (cases "i = k") auto

lemma unique_tags_install:
  assumes u: "unique_tags c" and nr: "\<not> resident c tg"
    and k: "k < length (blocks c)" "blocks c ! k = None"
  shows "unique_tags (c\<lparr>blocks := (blocks c)[k := Some \<lparr>valid = 1, tag = tg, dirty = d\<rparr>],
                        misses := m, reads := r\<rparr>)"
  unfolding unique_tags_iff
proof (intro allI impI, simp)
  fix i j b1 b2
  let ?bs = "(blocks c)[k := Some \<lparr>valid = 1, tag = tg, dirty = d\<rparr>]"
  assume ij: "i < length (blocks c)" "j < length (blocks c)" "i \<noteq> j"
    and b1: "?bs ! i = Some b1" and b2: "?bs ! j = Some b2"
    and v: "valid b1 = 1" "valid b2 = 1"
  from nr have other: "\<And>n y. n < length (blocks c) \<Longrightarrow> blocks c ! n = Some y \<Longrightarrow>
      valid y = 1 \<Longrightarrow> tag y \<noteq> tg"
    unfolding resident_iff by blast
  from nth_install [OF k(2) k(1) b1]
  consider "i = k" "tag b1 = tg" | "i \<noteq> k" "blocks c ! i = Some b1" by blast
  then show "tag b1 \<noteq> tag b2"
  proof cases
    case 1
    with ij have "j \<noteq> k" by simp
    with b2 have "blocks c ! j = Some b2" by simp
    from other [OF ij(2) this v(2)] 1 show ?thesis by simp
  next
    case 2
    from nth_install [OF k(2) k(1) b2]
    consider "j = k" "tag b2 = tg" | "j \<noteq> k" "blocks c ! j = Some b2" by blast
    then show ?thesis
    proof cases
      case 1
      from other [OF ij(1) 2(2) v(1)] 1 show ?thesis by simp
    next
      case 2
      note j2 = this
      from u ij \<open>blocks c ! i = Some b1\<close> j2(2) v show ?thesis
        unfolding unique_tags_iff by blast
    qed
  qed
qed

lemma unique_tags_dirty:
  assumes u: "unique_tags c" and k: "blocks c ! k = Some b"
  shows "unique_tags (c\<lparr>writes := w, blocks := (blocks c)[k := Some (b\<lparr>dirty := 1\<rparr>)],
                        hits := h\<rparr>)"
  unfolding unique_tags_iff
proof (intro allI impI, simp)
  fix i j b1 b2
  let ?bs = "(blocks c)[k := Some (b\<lparr>dirty := 1\<rparr>)]"
  assume ij: "i < length (blocks c)" "j < length (blocks c)" "i \<noteq> j"
    and b1: "?bs ! i = Some b1" and b2: "?bs ! j = Some b2"
    and v: "valid b1 = 1" "valid b2 = 1"
  from nth_dirty [OF k ij(1) b1] obtain y1 where
    y1: "blocks c ! i = Some y1" "valid y1 = valid b1" "tag y1 = tag b1" by blast
  from nth_dirty [OF k ij(2) b2] obtain y2 where
    y2: "blocks c ! j = Some y2" "valid y2 = valid b2" "tag y2 = tag b2" by blast
  from u ij y1 y2 v have "tag y1 \<noteq> tag y2"
    unfolding unique_tags_iff by (metis (no_types))
  with y1 y2 show "tag b1 \<noteq> tag b2" by simp
qed

lemma unique_tags_hits: "unique_tags (c\<lparr>hits := h\<rparr>) = unique_tags c"
  by (simp add: unique_tags_def)

lemma unique_tags_fresh: "createCache cs bs wp = Some c \<Longrightarrow> unique_tags c"
  by (auto simp: createCache_def unique_tags_def split: if_splits)

section \<open>One step and whole runs\<close>

text \<open>
  The effect of one dispatched access on a well-formed cache, counter by counter, and
  what follows for a run of any length.
\<close>

lemma step_effect:
  assumes wf: "wf_cache c"
  shows "\<exists>c'. step TAG INDEX OFFSET (Some c) a = Some c' \<and> wf_cache c' \<and>
           write_policy c' = write_policy c \<and>
           hits c' = hits c +
             (if outcome_of c (address_tag TAG INDEX OFFSET (address_of a)) = Hit then 1 else 0) \<and>
           misses c' = misses c +
             (if outcome_of c (address_tag TAG INDEX OFFSET (address_of a)) = MissInstalled
              then 1 else 0) \<and>
           reads c' = reads c +
             (if outcome_of c (address_tag TAG INDEX OFFSET (address_of a)) = MissInstalled
              then 1 else 0) \<and>
           writes c' = writes c +
             (if outcome_of c (address_tag TAG INDEX OFFSET (address_of a)) = Hit \<and>
                 a = Write (address_of a) \<and> write_policy c = 0 then 1 else 0) \<and>
           (unique_tags c \<longrightarrow> unique_tags c')"
proof (cases a)
  case (Read x)
  let ?tg = "address_tag TAG INDEX OFFSET x"
  show ?thesis
  proof (cases "outcome_of c ?tg")
    case Hit
    from read_hit [OF wf Hit] Read Hit wf show ?thesis
      by (simp add: wf_cache_def unique_tags_hits)
  next
    case MissInstalled
    then have nr: "\<not> resident c ?tg"
      by (simp add: outcome_of_def split: if_splits)
    from read_installed [OF wf MissInstalled] obtain k where
      k: "k < length (blocks c)" "blocks c ! k = None"
      and r: "readFromCache TAG INDEX OFFSET (Some c) (Some x) =
             (1, Some (c\<lparr>blocks := (blocks c)[k := Some \<lparr>valid = 1, tag = ?tg, dirty = 0\<rparr>],
                         misses := misses c + 1, reads := reads c + 1\<rparr>))"
      by blast
    from unique_tags_install [OF _ nr k]
    have "unique_tags c \<Longrightarrow>
      unique_tags (c\<lparr>blocks := (blocks c)[k := Some \<lparr>valid = 1, tag = ?tg, dirty = 0\<rparr>],
                         misses := misses c + 1, reads := reads c + 1\<rparr>)" .
    with r Read MissInstalled wf show ?thesis
      by (simp add: wf_cache_def)
  next
    case MissDropped
    from read_dropped [OF wf MissDropped] Read MissDropped wf show ?thesis
      by simp
  qed
next
  case (Write x)
  let ?tg = "address_tag TAG INDEX OFFSET x"
  show ?thesis
  proof (cases "outcome_of c ?tg")
    case Hit
    from write_hit [OF wf Hit] obtain k b where
      k: "blocks c ! k = Some b"
      and r: "writeToCache TAG INDEX OFFSET (Some c) (Some x) =
             (1, Some (c\<lparr>writes := (if write_policy c = 0 then writes c + 1 else writes c),
                         blocks := (blocks c)[k := Some (b\<lparr>dirty := 1\<rparr>)],
                         hits := hits c + 1\<rparr>))"
      by blast
    from unique_tags_dirty [OF _ k]
    have "unique_tags c \<Longrightarrow>
      unique_tags (c\<lparr>writes := (if write_policy c = 0 then writes c + 1 else writes c),
                         blocks := (blocks c)[k := Some (b\<lparr>dirty := 1\<rparr>)],
                         hits := hits c + 1\<rparr>)" .
    with r Write Hit wf show ?thesis
      by (simp add: wf_cache_def)
  next
    case MissInstalled
    then have nr: "\<not> resident c ?tg"
      by (simp add: outcome_of_def split: if_splits)
    from write_installed [OF wf MissInstalled] obtain k where
      k: "k < length (blocks c)" "blocks c ! k = None"
      and r: "writeToCache TAG INDEX OFFSET (Some c) (Some x) =
             (1, Some (c\<lparr>blocks := (blocks c)[k := Some \<lparr>valid = 1, tag = ?tg, dirty = 1\<rparr>],
                         misses := misses c + 1, reads := reads c + 1\<rparr>))"
      by blast
    from unique_tags_install [OF _ nr k]
    have "unique_tags c \<Longrightarrow>
      unique_tags (c\<lparr>blocks := (blocks c)[k := Some \<lparr>valid = 1, tag = ?tg, dirty = 1\<rparr>],
                         misses := misses c + 1, reads := reads c + 1\<rparr>)" .
    with r Write MissInstalled wf show ?thesis
      by (simp add: wf_cache_def)
  next
    case MissDropped
    from write_dropped [OF wf MissDropped] Write MissDropped wf show ?thesis
      by simp
  qed
qed

lemma run_wf:
  "wf_cache c \<Longrightarrow>
     \<exists>c'. run TAG INDEX OFFSET (Some c) trace = Some c' \<and> wf_cache c' \<and>
          write_policy c' = write_policy c"
proof (induction trace arbitrary: c)
  case Nil
  then show ?case by simp
next
  case (Cons a trace)
  from step_effect [OF Cons.prems, of TAG INDEX OFFSET a] obtain c1 where
    c1: "step TAG INDEX OFFSET (Some c) a = Some c1" "wf_cache c1"
      "write_policy c1 = write_policy c" by blast
  from Cons.IH [OF c1(2)] c1 show ?case by simp
qed

lemma run_reads_misses:
  "wf_cache c \<Longrightarrow> run TAG INDEX OFFSET (Some c) trace = Some c' \<Longrightarrow>
     reads c' - misses c' = reads c - misses c"
proof (induction trace arbitrary: c)
  case Nil
  then show ?case by simp
next
  case (Cons a trace)
  from step_effect [OF Cons.prems(1), of TAG INDEX OFFSET a] obtain c1 where
    c1: "step TAG INDEX OFFSET (Some c) a = Some c1" "wf_cache c1"
      "reads c1 - misses c1 = reads c - misses c" by auto
  from Cons.prems(2) c1(1) have "run TAG INDEX OFFSET (Some c1) trace = Some c'" by simp
  from Cons.IH [OF c1(2) this] c1(3) show ?case by simp
qed

lemma run_reads_installs:
  "wf_cache c \<Longrightarrow> run TAG INDEX OFFSET (Some c) trace = Some c' \<Longrightarrow>
     reads c' = reads c + int (count_list (outcomes TAG INDEX OFFSET (Some c) trace) MissInstalled)"
proof (induction trace arbitrary: c)
  case Nil
  then show ?case by simp
next
  case (Cons a trace)
  let ?oc = "outcome_of c (address_tag TAG INDEX OFFSET (address_of a))"
  from step_effect [OF Cons.prems(1), of TAG INDEX OFFSET a] obtain c1 where
    c1: "step TAG INDEX OFFSET (Some c) a = Some c1" "wf_cache c1"
      "reads c1 = reads c + (if ?oc = MissInstalled then 1 else 0)" by blast
  from Cons.prems(2) c1(1) have "run TAG INDEX OFFSET (Some c1) trace = Some c'" by simp
  from Cons.IH [OF c1(2) this] c1(1,3) show ?case by simp
qed

lemma run_writes_back:
  "wf_cache c \<Longrightarrow> write_policy c \<noteq> 0 \<Longrightarrow> run TAG INDEX OFFSET (Some c) trace = Some c' \<Longrightarrow>
     writes c' = writes c"
proof (induction trace arbitrary: c)
  case Nil
  then show ?case by simp
next
  case (Cons a trace)
  from step_effect [OF Cons.prems(1), of TAG INDEX OFFSET a] Cons.prems(2) obtain c1 where
    c1: "step TAG INDEX OFFSET (Some c) a = Some c1" "wf_cache c1"
      "write_policy c1 \<noteq> 0" "writes c1 = writes c" by auto
  from Cons.prems(3) c1(1) have "run TAG INDEX OFFSET (Some c1) trace = Some c'" by simp
  from Cons.IH [OF c1(2,3) this] c1(4) show ?case by simp
qed

lemma run_unique_tags:
  "wf_cache c \<Longrightarrow> unique_tags c \<Longrightarrow> run TAG INDEX OFFSET (Some c) trace = Some c' \<Longrightarrow>
     unique_tags c'"
proof (induction trace arbitrary: c)
  case Nil
  then show ?case by simp
next
  case (Cons a trace)
  from step_effect [OF Cons.prems(1), of TAG INDEX OFFSET a] Cons.prems(2) obtain c1 where
    c1: "step TAG INDEX OFFSET (Some c) a = Some c1" "wf_cache c1" "unique_tags c1" by blast
  from Cons.prems(3) c1(1) have "run TAG INDEX OFFSET (Some c1) trace = Some c'" by simp
  from Cons.IH [OF c1(2,3) this] show ?case .
qed

section \<open>Construction parameters\<close>

text \<open>
  C5. Claimed: construction fails exactly when one of four constraints is violated:
  cache size positive, block size positive, block size a divisor of the cache size,
  write policy one of the two valid ones. The guard of \<^verbatim>\<open>createCache\<close> has no test of
  divisibility. As amended: construction fails (returns \<^verbatim>\<open>NULL\<close>, before anything is
  allocated) exactly when the cache size is not positive, the block size is not positive,
  or the write policy is neither 0 nor 1; divisibility plays no part, and a cache that
  is returned has zeroed counters and \<open>cache_size / block_size\<close> (rounded down) empty
  lines.
\<close>

theorem createCache_fails_iff:
  "(createCache cs bs wp = None \<longleftrightarrow> \<not> (0 < cs \<and> 0 < bs \<and> (wp = 0 \<or> wp = 1))) \<and>
   (\<forall>c. createCache cs bs wp = Some c \<longrightarrow>
      blocks c = replicate (nat (cs div bs)) None \<and>
      hits c = 0 \<and> misses c = 0 \<and> reads c = 0 \<and> writes c = 0)"
  by (auto simp: createCache_def)

text \<open>
  The amended statement at the three ways to fail and at an accepted triple whose block
  size does not divide the cache size.
\<close>

theorem createCache_fails_iff_witness:
  "createCache 0 4 0 = None \<and> createCache 16 0 1 = None \<and> createCache 16 4 2 = None \<and>
   createCache 10 4 1 =
     Some \<lparr>hits = 0, misses = 0, reads = 0, writes = 0, cache_size = 10, block_size = 4,
           write_policy = 1, blocks = [None, None]\<rparr>"
proof -
  have h: "createCache 10 4 1 =
     Some \<lparr>hits = 0, misses = 0, reads = 0, writes = 0, cache_size = 10, block_size = 4,
           write_policy = 1, blocks = [None, None]\<rparr>"
    by (simp add: createCache_def numeral_2_eq_2)
  from createCache_fails_iff [of 0 4 0] createCache_fails_iff [of 16 0 1]
    createCache_fails_iff [of 16 4 2] createCache_fails_iff [of 10 4 1] h
  show ?thesis by simp
qed

text \<open>
  The claim as stated fails at cache size 10, block size 3, write through: 3 does not
  divide 10, yet a cache with \<open>10 / 3 = 3\<close> empty lines is returned.
\<close>

theorem createCache_unchecked_divisibility:
  "\<not> construction_constraints 10 3 0 \<and>
   createCache 10 3 0 =
     Some \<lparr>hits = 0, misses = 0, reads = 0, writes = 0, cache_size = 10, block_size = 3,
           write_policy = 0, blocks = [None, None, None]\<rparr>"
  by (simp add: construction_constraints_def createCache_def numeral_3_eq_3)

section \<open>Hexadecimal parsing\<close>

text \<open>
  On text that holds hexadecimal digits only (behind the optional \<^verbatim>\<open>0x\<close>), \<^verbatim>\<open>htoi\<close>
  is the base 16 reading of the specification.
\<close>

lemma htoi_loop_digit:
  assumes "is_hex_digit c"
  shows "htoi_loop (c # str) result = htoi_loop str (result * 16 + hex_digit_value c)"
proof (cases "of_char (CHR ''0'') \<le> (of_char c :: nat) \<and> (of_char c :: nat) \<le> of_char (CHR ''9'')")
  case True
  then show ?thesis by (simp add: hex_digit_value_def Let_def)
next
  case False
  with assms have "of_char (CHR ''a'') \<le> tolower c \<and> tolower c \<le> of_char (CHR ''f'')"
    unfolding is_hex_digit_def by blast
  with False show ?thesis
    by (simp only: htoi_loop.simps Let_def hex_digit_value_def if_True if_False add.assoc simp_thms)
qed

lemma htoi_loop_digits:
  "list_all is_hex_digit str \<Longrightarrow>
     htoi_loop str result = foldl (\<lambda>result c. result * 16 + hex_digit_value c) result str"
proof (induction str arbitrary: result)
  case Nil
  show ?case by simp
next
  case (Cons c str)
  then have "is_hex_digit c" "list_all is_hex_digit str" by simp_all
  with Cons.IH show ?case by (simp only: htoi_loop_digit foldl_Cons)
qed

lemma htoi_strip: "htoi str = htoi_loop (strip_0x str) 0"
  by (auto simp: htoi_def strip_0x_def split: list.splits)

lemma htoi_digits_only:
  "list_all is_hex_digit (strip_0x str) \<Longrightarrow> htoi str = htoi_spec str"
  by (simp add: htoi_strip htoi_spec_def hex_numeral_def htoi_loop_digits
      filter_id_conv list_all_iff)

text \<open>
  C6. Claimed: \<^verbatim>\<open>htoi\<close> never fails, and the result is the value of the text with
  every unrecognised character deleted. \<open>htoi\<close> is total, but an unrecognised character
  is not deleted: the loop multiplies by 16 before it looks at the character, so the
  character counts as a digit 0. On \<^verbatim>\<open>0x1g2\<close> the function returns \<open>0x102 = 258\<close>, where
  deleting the \<^verbatim>\<open>g\<close> gives \<open>0x12 = 18\<close>.
\<close>

theorem htoi_unrecognised_character:
  "htoi ''0x1g2'' = 258 \<and> htoi_spec ''0x1g2'' = 18"
  by (simp add: htoi_def htoi_spec_def hex_numeral_def strip_0x_def is_hex_digit_def
      hex_digit_value_def tolower_def)

section \<open>Tags of the two addresses of scenario C\<close>

lemma length_getBinary: "length (getBinary num) = 32"
  by (simp add: getBinary_def)

lemma address_tag_take:
  "TAG \<le> 32 \<Longrightarrow> address_tag TAG INDEX OFFSET a = take TAG (getBinary (htoi a))"
  by (simp add: address_tag_def formatBinary_def length_getBinary)

lemma htoi_zeros: "htoi ''0x00000000'' = 0"
  by (simp add: htoi_def tolower_def)

lemma htoi_ones: "htoi ''0xFFFFFFFF'' = 0xFFFFFFFF"
  by (simp add: htoi_def tolower_def)

lemma getBinary_zeros: "getBinary 0 = replicate 32 (CHR ''0'')"
  by code_simp

lemma getBinary_ones: "getBinary 0xFFFFFFFF = replicate 32 (CHR ''1'')"
  by code_simp

lemma address_tag_zeros:
  "TAG \<le> 32 \<Longrightarrow> address_tag TAG INDEX OFFSET ''0x00000000'' = replicate TAG (CHR ''0'')"
  by (simp add: address_tag_take htoi_zeros getBinary_zeros min_def)

lemma address_tag_ones:
  "TAG \<le> 32 \<Longrightarrow> address_tag TAG INDEX OFFSET ''0xFFFFFFFF'' = replicate TAG (CHR ''1'')"
  by (simp add: address_tag_take htoi_ones getBinary_ones min_def)

section \<open>The claims on accesses and runs\<close>

text \<open>
  C1. Claimed: every access increments exactly one of \<^verbatim>\<open>hits\<close> and \<^verbatim>\<open>misses\<close>, also
  on a miss that finds no empty slot, so that their sum is the number of accesses. In
  the source \<^verbatim>\<open>misses\<close> is incremented only inside the loop that finds an empty slot. On
  a cache of one line, after reading \<^verbatim>\<open>0x00000000\<close> and then \<^verbatim>\<open>0xFFFFFFFF\<close>, the counters
  are \<open>hits = 0\<close> and \<open>misses = 1\<close>: two accesses, sum 1.
\<close>

theorem full_cache_miss_uncounted:
  "run 18 12 2 (createCache 4 4 0) [Read ''0x00000000'', Read ''0xFFFFFFFF''] =
     Some \<lparr>hits = 0, misses = 1, reads = 1, writes = 0, cache_size = 4, block_size = 4,
           write_policy = 0,
           blocks = [Some \<lparr>valid = 1, tag = ''000000000000000000'', dirty = 0\<rparr>]\<rparr>"
  by code_simp

text \<open>
  C2. On a cache of one line, reading \<^verbatim>\<open>0x00000000\<close> and then \<^verbatim>\<open>0xFFFFFFFF\<close> gives the
  outcomes installing miss, dropped miss: the first read returns 1 and leaves the tag
  of all zeros in the only slot; the second returns 0 and leaves the cache as it was,
  so nothing is evicted or installed and the tag of the second address is not resident
  after the run. This holds for every positive tag width, the three field widths
  adding up to 32.
\<close>

theorem scenario_C_single_line:
  assumes tag: "0 < TAG" and widths: "TAG + INDEX + OFFSET = 32"
    and create: "createCache cs bs wp = Some c" and one: "cs div bs = 1"
  shows "outcomes TAG INDEX OFFSET (Some c) [Read ''0x00000000'', Read ''0xFFFFFFFF''] =
           [MissInstalled, MissDropped] \<and>
         (\<exists>c1. readFromCache TAG INDEX OFFSET (Some c) (Some ''0x00000000'') = (1, Some c1) \<and>
            blocks c1 = [Some \<lparr>valid = 1, tag = replicate TAG (CHR ''0''), dirty = 0\<rparr>] \<and>
            readFromCache TAG INDEX OFFSET (Some c1) (Some ''0xFFFFFFFF'') = (0, Some c1) \<and>
            \<not> resident c1 (address_tag TAG INDEX OFFSET ''0xFFFFFFFF'') \<and>
            run TAG INDEX OFFSET (Some c) [Read ''0x00000000'', Read ''0xFFFFFFFF''] = Some c1)"
proof -
  let ?t0 = "address_tag TAG INDEX OFFSET ''0x00000000''"
  let ?t1 = "address_tag TAG INDEX OFFSET ''0xFFFFFFFF''"
  from widths have le: "TAG \<le> 32" by simp
  have t0: "?t0 = replicate TAG (CHR ''0'')" by (rule address_tag_zeros [OF le])
  have t1: "?t1 = replicate TAG (CHR ''1'')" by (rule address_tag_ones [OF le])
  from tag obtain m where m: "TAG = Suc m" by (cases TAG) auto
  from m have "replicate TAG (CHR ''0'') \<noteq> replicate TAG (CHR ''1'')" by simp
  with t0 t1 have differ: "?t0 \<noteq> ?t1" by simp
  from createCache_Some [OF create] one have wf: "wf_cache c" and bl: "blocks c = [None]"
    by simp_all
  from bl have o0: "outcome_of c ?t0 = MissInstalled"
    by (simp add: outcome_of_def resident_def has_empty_slot_def)
  from read_installed [OF wf o0] bl obtain c1 where
    r0: "readFromCache TAG INDEX OFFSET (Some c) (Some ''0x00000000'') = (1, Some c1)"
    and c1: "c1 = c\<lparr>blocks := [Some \<lparr>valid = 1, tag = ?t0, dirty = 0\<rparr>],
                     misses := misses c + 1, reads := reads c + 1\<rparr>"
    by auto
  from c1 have bl1: "blocks c1 = [Some \<lparr>valid = 1, tag = replicate TAG (CHR ''0''), dirty = 0\<rparr>]"
    by (simp add: t0)
  from wf bl c1 have wf1: "wf_cache c1" by (simp add: wf_cache_def)
  from bl1 differ have nres: "\<not> resident c1 ?t1"
    by (simp add: resident_def t0)
  from bl1 nres have o1: "outcome_of c1 ?t1 = MissDropped"
    by (simp add: outcome_of_def has_empty_slot_def)
  from read_dropped [OF wf1 o1]
  have r1: "readFromCache TAG INDEX OFFSET (Some c1) (Some ''0xFFFFFFFF'') = (0, Some c1)" .
  from o0 o1 r0 r1 have "outcomes TAG INDEX OFFSET (Some c) [Read ''0x00000000'', Read ''0xFFFFFFFF''] =
           [MissInstalled, MissDropped]" by simp
  moreover from r0 r1
  have "run TAG INDEX OFFSET (Some c) [Read ''0x00000000'', Read ''0xFFFFFFFF''] = Some c1"
    by simp
  ultimately show ?thesis using r0 bl1 r1 nres by blast
qed

text \<open>
  Scenario C with cache size 4, block size 4, write through and the widths 18, 12, 2.
\<close>

theorem scenario_C_single_line_witness:
  "(0::nat) < 18 \<and> (18::nat) + 12 + 2 = 32 \<and> (4::int) div 4 = 1 \<and>
   createCache 4 4 0 =
     Some \<lparr>hits = 0, misses = 0, reads = 0, writes = 0, cache_size = 4, block_size = 4,
           write_policy = 0, blocks = [None]\<rparr> \<and>
   outcomes 18 12 2 (createCache 4 4 0) [Read ''0x00000000'', Read ''0xFFFFFFFF''] =
     [MissInstalled, MissDropped] \<and>
   run 18 12 2 (createCache 4 4 0) [Read ''0x00000000'', Read ''0xFFFFFFFF''] =
     Some \<lparr>hits = 0, misses = 1, reads = 1, writes = 0, cache_size = 4, block_size = 4,
           write_policy = 0,
           blocks = [Some \<lparr>valid = 1, tag = ''000000000000000000'', dirty = 0\<rparr>]\<rparr>"
proof -
  let ?c = "\<lparr>hits = 0, misses = 0, reads = 0, writes = 0, cache_size = 4, block_size = 4,
           write_policy = 0, blocks = [None]\<rparr>"
  have h1: "(0::nat) < 18" and h2: "(18::nat) + 12 + 2 = 32" and h4: "(4::int) div 4 = 1"
    by simp_all
  have h3: "createCache 4 4 0 = Some ?c" by (simp add: createCache_def)
  from scenario_C_single_line [OF h1 h2 h3 h4] obtain c1 where
    o: "outcomes 18 12 2 (Some ?c) [Read ''0x00000000'', Read ''0xFFFFFFFF''] =
           [MissInstalled, MissDropped]"
    and r: "readFromCache 18 12 2 (Some ?c) (Some ''0x00000000'') = (1, Some c1)"
    and f: "run 18 12 2 (Some ?c) [Read ''0x00000000'', Read ''0xFFFFFFFF''] = Some c1"
    by blast
  have "readFromCache 18 12 2 (Some ?c) (Some ''0x00000000'') =
     (1, Some \<lparr>hits = 0, misses = 1, reads = 1, writes = 0, cache_size = 4, block_size = 4,
           write_policy = 0,
           blocks = [Some \<lparr>valid = 1, tag = ''000000000000000000'', dirty = 0\<rparr>]\<rparr>)"
    by code_simp
  with r have "c1 = \<lparr>hits = 0, misses = 1, reads = 1, writes = 0, cache_size = 4, block_size = 4,
           write_policy = 0,
           blocks = [Some \<lparr>valid = 1, tag = ''000000000000000000'', dirty = 0\<rparr>]\<rparr>" by simp
  with o f h3 show ?thesis by simp
qed

text \<open>
  C3. On a well-formed cache a write increments \<^verbatim>\<open>writes\<close> by exactly 1 when the policy
  is write through (0) and the access is a hit, and leaves it unchanged otherwise: on a
  write miss under write through, and on every write under write back. A read never
  changes \<^verbatim>\<open>writes\<close>.
\<close>

theorem memoryWrites_by_policy:
  assumes "wf_cache c"
  shows "(\<exists>c'. snd (writeToCache TAG INDEX OFFSET (Some c) (Some a)) = Some c' \<and>
            writes c' =
              (if write_policy c = 0 \<and> outcome_of c (address_tag TAG INDEX OFFSET a) = Hit
               then writes c + 1 else writes c)) \<and>
         (\<exists>c'. snd (readFromCache TAG INDEX OFFSET (Some c) (Some a)) = Some c' \<and>
            writes c' = writes c)"
proof -
  from step_effect [OF assms, of TAG INDEX OFFSET "Write a"]
  have "\<exists>c'. snd (writeToCache TAG INDEX OFFSET (Some c) (Some a)) = Some c' \<and>
            writes c' =
              (if write_policy c = 0 \<and> outcome_of c (address_tag TAG INDEX OFFSET a) = Hit
               then writes c + 1 else writes c)"
    by auto
  moreover from step_effect [OF assms, of TAG INDEX OFFSET "Read a"]
  have "\<exists>c'. snd (readFromCache TAG INDEX OFFSET (Some c) (Some a)) = Some c' \<and>
            writes c' = writes c"
    by auto
  ultimately show ?thesis by blast
qed

text \<open>
  A write hit under write through: the second write of scenario D.
\<close>

theorem memoryWrites_by_policy_witness:
  "wf_cache \<lparr>hits = 0, misses = 1, reads = 1, writes = 0, cache_size = 8, block_size = 4,
             write_policy = 0,
             blocks = [Some \<lparr>valid = 1, tag = ''000000000000000000'', dirty = 1\<rparr>, None]\<rparr> \<and>
   outcome_of \<lparr>hits = 0, misses = 1, reads = 1, writes = 0, cache_size = 8, block_size = 4,
             write_policy = 0,
             blocks = [Some \<lparr>valid = 1, tag = ''000000000000000000'', dirty = 1\<rparr>, None]\<rparr>
     (address_tag 18 12 2 ''0x1'') = Hit \<and>
   (\<exists>c'. snd (writeToCache 18 12 2
              (Some \<lparr>hits = 0, misses = 1, reads = 1, writes = 0, cache_size = 8, block_size = 4,
                    write_policy = 0,
                    blocks = [Some \<lparr>valid = 1, tag = ''000000000000000000'', dirty = 1\<rparr>, None]\<rparr>)
              (Some ''0x1'')) = Some c' \<and> writes c' = 1) \<and>
   (\<exists>c'. snd (readFromCache 18 12 2
              (Some \<lparr>hits = 0, misses = 1, reads = 1, writes = 0, cache_size = 8, block_size = 4,
                    write_policy = 0,
                    blocks = [Some \<lparr>valid = 1, tag = ''000000000000000000'', dirty = 1\<rparr>, None]\<rparr>)
              (Some ''0x1'')) = Some c' \<and> writes c' = 0)"
proof -
  let ?c = "\<lparr>hits = 0, misses = 1, reads = 1, writes = 0, cache_size = 8, block_size = 4,
             write_policy = 0,
             blocks = [Some \<lparr>valid = 1, tag = ''000000000000000000'', dirty = 1\<rparr>, None]\<rparr>"
  have wf: "wf_cache ?c" by (simp add: wf_cache_def)
  have tg: "address_tag 18 12 2 ''0x1'' = ''000000000000000000''" by code_simp
  have oc: "outcome_of ?c (address_tag 18 12 2 ''0x1'') = Hit"
    by (simp add: tg outcome_of_def resident_def)
  from memoryWrites_by_policy [OF wf, of 18 12 2 "''0x1''"] wf oc show ?thesis
    by simp
qed

text \<open>
  C4. After any run from a freshly constructed cache, \<^verbatim>\<open>reads\<close> is the number of
  accesses of the run whose outcome was an installing miss; hits and dropped misses
  add nothing.
\<close>

theorem memoryReads_counts_installs:
  assumes "createCache cs bs wp = Some c"
  shows "\<exists>c'. run TAG INDEX OFFSET (Some c) trace = Some c' \<and>
           reads c' = int (count_list (outcomes TAG INDEX OFFSET (Some c) trace) MissInstalled)"
proof -
  from createCache_Some [OF assms] have wf: "wf_cache c" and r0: "reads c = 0" by simp_all
  from run_wf [OF wf] obtain c' where c': "run TAG INDEX OFFSET (Some c) trace = Some c'"
    by blast
  from run_reads_installs [OF wf c'] r0 c' show ?thesis by simp
qed

text \<open>
  A run with one outcome of each kind.
\<close>

theorem memoryReads_counts_installs_witness:
  "createCache 4 4 0 =
     Some \<lparr>hits = 0, misses = 0, reads = 0, writes = 0, cache_size = 4, block_size = 4,
           write_policy = 0, blocks = [None]\<rparr> \<and>
   outcomes 18 12 2 (createCache 4 4 0)
     [Read ''0x00000000'', Read ''0x00000004'', Write ''0xFFFFFFFF''] =
     [MissInstalled, Hit, MissDropped] \<and>
   (\<exists>c'. run 18 12 2 (createCache 4 4 0)
            [Read ''0x00000000'', Read ''0x00000004'', Write ''0xFFFFFFFF''] = Some c' \<and>
         reads c' = 1)"
proof -
  let ?c = "\<lparr>hits = 0, misses = 0, reads = 0, writes = 0, cache_size = 4, block_size = 4,
           write_policy = 0, blocks = [None]\<rparr>"
  have h: "createCache 4 4 0 = Some ?c" by (simp add: createCache_def)
  have o: "outcomes 18 12 2 (createCache 4 4 0)
     [Read ''0x00000000'', Read ''0x00000004'', Write ''0xFFFFFFFF''] =
     [MissInstalled, Hit, MissDropped]" by code_simp
  from memoryReads_counts_installs [OF h, of 18 12 2
      "[Read ''0x00000000'', Read ''0x00000004'', Write ''0xFFFFFFFF'']"] h o
  show ?thesis by simp
qed

text \<open>
  C7. Starting from a freshly constructed cache, after every sequence of reads and
  writes no two valid slots hold equal tags.
\<close>

theorem tags_stay_unique:
  assumes "createCache cs bs wp = Some c"
  shows "\<exists>c'. run TAG INDEX OFFSET (Some c) trace = Some c' \<and> unique_tags c'"
proof -
  from createCache_Some [OF assms] have wf: "wf_cache c" by simp
  from run_wf [OF wf] obtain c' where c': "run TAG INDEX OFFSET (Some c) trace = Some c'"
    by blast
  from run_unique_tags [OF wf unique_tags_fresh [OF assms] c'] c' show ?thesis by blast
qed

text \<open>
  A run on two lines that installs two tags and then meets both again.
\<close>

theorem tags_stay_unique_witness:
  "run 18 12 2 (createCache 8 4 1)
     [Write ''0x00000000'', Read ''0xFFFFFFFF'', Write ''0x00000004'', Read ''0xFFFF0000''] =
     Some \<lparr>hits = 1, misses = 2, reads = 2, writes = 0, cache_size = 8, block_size = 4,
           write_policy = 1,
           blocks = [Some \<lparr>valid = 1, tag = ''000000000000000000'', dirty = 1\<rparr>,
                     Some \<lparr>valid = 1, tag = ''111111111111111111'', dirty = 0\<rparr>]\<rparr> \<and>
   unique_tags \<lparr>hits = 1, misses = 2, reads = 2, writes = 0, cache_size = 8, block_size = 4,
           write_policy = 1,
           blocks = [Some \<lparr>valid = 1, tag = ''000000000000000000'', dirty = 1\<rparr>,
                     Some \<lparr>valid = 1, tag = ''111111111111111111'', dirty = 0\<rparr>]\<rparr>"
proof -
  let ?c = "\<lparr>hits = 0, misses = 0, reads = 0, writes = 0, cache_size = 8, block_size = 4,
           write_policy = 1, blocks = [None, None]\<rparr>"
  let ?trace = "[Write ''0x00000000'', Read ''0xFFFFFFFF'', Write ''0x00000004'',
                 Read ''0xFFFF0000'']"
  have h: "createCache 8 4 1 = Some ?c" by (simp add: createCache_def numeral_2_eq_2)
  have r: "run 18 12 2 (createCache 8 4 1) ?trace =
     Some \<lparr>hits = 1, misses = 2, reads = 2, writes = 0, cache_size = 8, block_size = 4,
           write_policy = 1,
           blocks = [Some \<lparr>valid = 1, tag = ''000000000000000000'', dirty = 1\<rparr>,
                     Some \<lparr>valid = 1, tag = ''111111111111111111'', dirty = 0\<rparr>]\<rparr>"
    by code_simp
  from tags_stay_unique [OF h, of 18 12 2 ?trace] h r show ?thesis by simp
qed

text \<open>
  C8. An access whose outcome is a dropped miss, read or write, returns 0 and leaves
  the whole cache as it was: the four counters and every slot.
\<close>

theorem dropped_miss_changes_nothing:
  assumes "wf_cache c" and "outcome_of c (address_tag TAG INDEX OFFSET a) = MissDropped"
  shows "readFromCache TAG INDEX OFFSET (Some c) (Some a) = (0, Some c) \<and>
         writeToCache TAG INDEX OFFSET (Some c) (Some a) = (0, Some c)"
  using read_dropped [OF assms] write_dropped [OF assms] by simp

text \<open>
  The full cache of one line, accessed with a tag it does not hold.
\<close>

theorem dropped_miss_changes_nothing_witness:
  "wf_cache \<lparr>hits = 0, misses = 1, reads = 1, writes = 0, cache_size = 4, block_size = 4,
             write_policy = 0,
             blocks = [Some \<lparr>valid = 1, tag = ''000000000000000000'', dirty = 0\<rparr>]\<rparr> \<and>
   outcome_of \<lparr>hits = 0, misses = 1, reads = 1, writes = 0, cache_size = 4, block_size = 4,
             write_policy = 0,
             blocks = [Some \<lparr>valid = 1, tag = ''000000000000000000'', dirty = 0\<rparr>]\<rparr>
     (address_tag 18 12 2 ''0xFFFFFFFF'') = MissDropped \<and>
   readFromCache 18 12 2
     (Some \<lparr>hits = 0, misses = 1, reads = 1, writes = 0, cache_size = 4, block_size = 4,
           write_policy = 0,
           blocks = [Some \<lparr>valid = 1, tag = ''000000000000000000'', dirty = 0\<rparr>]\<rparr>)
     (Some ''0xFFFFFFFF'') =
     (0, Some \<lparr>hits = 0, misses = 1, reads = 1, writes = 0, cache_size = 4, block_size = 4,
           write_policy = 0,
           blocks = [Some \<lparr>valid = 1, tag = ''000000000000000000'', dirty = 0\<rparr>]\<rparr>) \<and>
   writeToCache 18 12 2
     (Some \<lparr>hits = 0, misses = 1, reads = 1, writes = 0, cache_size = 4, block_size = 4,
           write_policy = 0,
           blocks = [Some \<lparr>valid = 1, tag = ''000000000000000000'', dirty = 0\<rparr>]\<rparr>)
     (Some ''0xFFFFFFFF'') =
     (0, Some \<lparr>hits = 0, misses = 1, reads = 1, writes = 0, cache_size = 4, block_size = 4,
           write_policy = 0,
           blocks = [Some \<lparr>valid = 1, tag = ''000000000000000000'', dirty = 0\<rparr>]\<rparr>)"
proof -
  let ?c = "\<lparr>hits = 0, misses = 1, reads = 1, writes = 0, cache_size = 4, block_size = 4,
             write_policy = 0,
             blocks = [Some \<lparr>valid = 1, tag = ''000000000000000000'', dirty = 0\<rparr>]\<rparr>"
  have wf: "wf_cache ?c" by (simp add: wf_cache_def)
  have tg: "address_tag 18 12 2 ''0xFFFFFFFF'' = ''111111111111111111''" by code_simp
  have oc: "outcome_of ?c (address_tag 18 12 2 ''0xFFFFFFFF'') = MissDropped"
    by (simp add: tg outcome_of_def resident_def has_empty_slot_def)
  from dropped_miss_changes_nothing [OF wf oc] wf oc show ?thesis by simp
qed

text \<open>
  C9. After every run from a freshly constructed cache, under either policy,
  \<^verbatim>\<open>reads\<close> equals \<^verbatim>\<open>misses\<close>; the trace is arbitrary, so this holds at every point of
  a run.
\<close>

theorem memoryReads_equals_misses:
  assumes "createCache cs bs wp = Some c"
  shows "\<exists>c'. run TAG INDEX OFFSET (Some c) trace = Some c' \<and> reads c' = misses c'"
proof -
  from createCache_Some [OF assms] have wf: "wf_cache c" and z: "reads c = 0" "misses c = 0"
    by simp_all
  from run_wf [OF wf] obtain c' where c': "run TAG INDEX OFFSET (Some c) trace = Some c'"
    by blast
  from run_reads_misses [OF wf c'] z c' show ?thesis by simp
qed

text \<open>
  A run with an installing miss, a hit and a dropped miss.
\<close>

theorem memoryReads_equals_misses_witness:
  "run 18 12 2 (createCache 4 4 0)
     [Read ''0x00000000'', Read ''0x00000004'', Write ''0xFFFFFFFF''] =
     Some \<lparr>hits = 1, misses = 1, reads = 1, writes = 0, cache_size = 4, block_size = 4,
           write_policy = 0,
           blocks = [Some \<lparr>valid = 1, tag = ''000000000000000000'', dirty = 0\<rparr>]\<rparr>"
proof -
  let ?c = "\<lparr>hits = 0, misses = 0, reads = 0, writes = 0, cache_size = 4, block_size = 4,
           write_policy = 0, blocks = [None]\<rparr>"
  let ?trace = "[Read ''0x00000000'', Read ''0x00000004'', Write ''0xFFFFFFFF'']"
  have h: "createCache 4 4 0 = Some ?c" by (simp add: createCache_def)
  from memoryReads_equals_misses [OF h, of 18 12 2 ?trace] obtain c' where
    c': "run 18 12 2 (Some ?c) ?trace = Some c'" and eq: "reads c' = misses c'" by blast
  have "run 18 12 2 (Some ?c) ?trace =
     Some \<lparr>hits = 1, misses = 1, reads = 1, writes = 0, cache_size = 4, block_size = 4,
           write_policy = 0,
           blocks = [Some \<lparr>valid = 1, tag = ''000000000000000000'', dirty = 0\<rparr>]\<rparr>"
    by code_simp
  with h show ?thesis by simp
qed

text \<open>
  C10. Under write back (policy 1), \<^verbatim>\<open>writes\<close> is 0 after every run from a freshly
  constructed cache.
\<close>

theorem write_back_never_writes:
  assumes "createCache cs bs 1 = Some c"
  shows "\<exists>c'. run TAG INDEX OFFSET (Some c) trace = Some c' \<and> writes c' = 0"
proof -
  from createCache_Some [OF assms] have wf: "wf_cache c" and z: "writes c = 0"
    and wp: "write_policy c \<noteq> 0" by simp_all
  from run_wf [OF wf] obtain c' where c': "run TAG INDEX OFFSET (Some c) trace = Some c'"
    by blast
  from run_writes_back [OF wf wp c'] z c' show ?thesis by simp
qed

text \<open>
  A write miss, a write hit and a read hit under write back.
\<close>

theorem write_back_never_writes_witness:
  "run 18 12 2 (createCache 8 4 1) [Write ''0x1'', Write ''0x1'', Read ''0x1''] =
     Some \<lparr>hits = 2, misses = 1, reads = 1, writes = 0, cache_size = 8, block_size = 4,
           write_policy = 1,
           blocks = [Some \<lparr>valid = 1, tag = ''000000000000000000'', dirty = 1\<rparr>, None]\<rparr>"
proof -
  let ?c = "\<lparr>hits = 0, misses = 0, reads = 0, writes = 0, cache_size = 8, block_size = 4,
           write_policy = 1, blocks = [None, None]\<rparr>"
  let ?trace = "[Write ''0x1'', Write ''0x1'', Read ''0x1'']"
  have h: "createCache 8 4 1 = Some ?c" by (simp add: createCache_def numeral_2_eq_2)
  from write_back_never_writes [OF h, of 18 12 2 ?trace] obtain c' where
    c': "run 18 12 2 (Some ?c) ?trace = Some c'" and w: "writes c' = 0" by blast
  have "run 18 12 2 (Some ?c) ?trace =
     Some \<lparr>hits = 2, misses = 1, reads = 1, writes = 0, cache_size = 8, block_size = 4,
           write_policy = 1,
           blocks = [Some \<lparr>valid = 1, tag = ''000000000000000000'', dirty = 1\<rparr>, None]\<rparr>"
    by code_simp
  with h show ?thesis by simp
qed

end
